theory Spec2Isabelle
  imports Complex_Main "HOL-Library.Word"
begin

section \<open>The module state: minimum sample size and its exception\<close>

text \<open>
  \<^verbatim>\<open>LZ78.py\<close> keeps two module globals, \<^verbatim>\<open>_MINIMUM_SAMPLE_SIZE_\<close> and the exception
  object \<^verbatim>\<open>InputError\<close>; \<^verbatim>\<open>set_minimum_size\<close> writes both and \<^verbatim>\<open>erLZ78\<close> reads both.
  They are passed explicitly as a record. \<^verbatim>\<open>InputError\<close> is only ever bound to a
  \<^verbatim>\<open>ValueError\<close> (line 35), so the record keeps its message and \<^verbatim>\<open>raise InputError\<close> raises
  the \<^verbatim>\<open>ValueError\<close> with that message. The module itself raises nothing else; numpy's
  \<^verbatim>\<open>append\<close> can raise \<^verbatim>\<open>DTypePromotionError\<close>, a \<^verbatim>\<open>TypeError\<close>.
\<close>

datatype error = ValueError string | DTypePromotionError

record module_state =
  MINIMUM_SAMPLE_SIZE :: int
  InputError :: string

text \<open>Python's \<^verbatim>\<open>str\<close> of an integer, which is what \<^verbatim>\<open>'{:}'.format\<close> inserts.\<close>

definition digit :: "nat \<Rightarrow> char" where
  "digit d = ''0123456789'' ! d"

fun str_nat :: "nat \<Rightarrow> string" where
  "str_nat n = (if n < 10 then [digit n] else str_nat (n div 10) @ [digit (n mod 10)])"

declare str_nat.simps [simp del]

definition str_int :: "int \<Rightarrow> string" where
  "str_int i = (if i < 0 then CHR ''-'' # str_nat (nat (- i)) else str_nat (nat i))"

text \<open>The two message templates, as functions of the text put in place of \<^verbatim>\<open>{:}\<close>.\<close>

definition INPUT_ERROR_TEMPLATE :: "string \<Rightarrow> string" where
  "INPUT_ERROR_TEMPLATE arg =
     ''Sample size is below minimum ('' @ arg @
     '' outcomes). Minimal sample size can be set, at your own risk, via LZ78.set_minimum_size(new_size). Keep in mind that the accuracy of the estimate grows with the sample size.''"

definition UNSUPPORTED_KINDS :: "char list" where
  "UNSUPPORTED_KINDS = [CHR ''f'', CHR ''c'', CHR ''V'', CHR ''O'']"

definition UNSUPPORTED_KIND_TEMPLATE :: "string \<Rightarrow> string" where
  "UNSUPPORTED_KIND_TEMPLATE arg =
     ''The provided data kind ('' @ arg @
     '') is not guaranteed to produce sensible output. If you intend to run the algorithm on the data nonetheless, override the input check. For more information on data kind, please refer to the numpy.dtype.kind documentation.''"

definition set_minimum_size :: "int \<Rightarrow> module_state \<Rightarrow> module_state" where
  "set_minimum_size new_size st =
     (let st = st\<lparr>MINIMUM_SAMPLE_SIZE := new_size\<rparr>
      in st\<lparr>InputError := INPUT_ERROR_TEMPLATE (str_int (MINIMUM_SAMPLE_SIZE st))\<rparr>)"

text \<open>
  The state once the module is loaded: line 12 binds the threshold to 5 and line 37 calls
  the setter with it, which creates \<^verbatim>\<open>InputError\<close>.
\<close>

definition loaded :: module_state where
  "loaded = set_minimum_size 5 \<lparr>MINIMUM_SAMPLE_SIZE = 5, InputError = []\<rparr>"

section \<open>Numpy arrays and the sequences a caller can pass\<close>

text \<open>
  Four numpy dtypes with 8-byte items are modelled: signed and unsigned 64-bit integers,
  \<^verbatim>\<open>float64\<close> and \<^verbatim>\<open>datetime64\<close>. An array is its dtype and its items, each item kept as its
  8-byte pattern; arrays are one-dimensional, so \<^verbatim>\<open>size\<close> and \<^verbatim>\<open>len\<close> agree.
\<close>

datatype dtype = Int64 | UInt64 | Float64 | Datetime64

type_synonym symbol = "64 word"

record ndarray =
  dtype :: dtype
  data :: "symbol list"

fun kind :: "dtype \<Rightarrow> char" where
  "kind Int64 = CHR ''i''"
| "kind UInt64 = CHR ''u''"
| "kind Float64 = CHR ''f''"
| "kind Datetime64 = CHR ''M''"

definition size_np :: "ndarray \<Rightarrow> nat" where
  "size_np arr = length (data arr)"

text \<open>
  The argument \<^verbatim>\<open>sequence\<close> is a numpy array or something castable to one. Besides arrays,
  two containers of Python integers are modelled: a list of integers that fit 64 bits
  signed (what the module's own test routine passes) and the standard library's
  \<^verbatim>\<open>array.array('Q', ...)\<close> of unsigned 64-bit integers.
\<close>

datatype sequence = NdArray ndarray | PyList "symbol list" | ArrayQ "symbol list"

fun items :: "sequence \<Rightarrow> symbol list" where
  "items (NdArray arr) = data arr"
| "items (PyList xs) = xs"
| "items (ArrayQ xs) = xs"

definition len :: "sequence \<Rightarrow> nat" where
  "len sequence = length (items sequence)"

text \<open>
  \<^verbatim>\<open>numpy.array(sequence)\<close>: an array is returned as it is, a list of Python integers
  becomes an \<^verbatim>\<open>int64\<close> array and an \<^verbatim>\<open>array.array('Q')\<close> a \<^verbatim>\<open>uint64\<close> array.
\<close>

fun array :: "sequence \<Rightarrow> ndarray" where
  "array (NdArray arr) = arr"
| "array (PyList xs) = \<lparr>dtype = Int64, data = xs\<rparr>"
| "array (ArrayQ xs) = \<lparr>dtype = UInt64, data = xs\<rparr>"

text \<open>
  What iterating over the sequence yields, each number with the dtype it has when
  \<^verbatim>\<open>append\<close> turns it into an array: an item of a numpy array is a scalar of the array's
  dtype; a Python integer becomes \<^verbatim>\<open>int64\<close> when it fits and \<^verbatim>\<open>uint64\<close> when it is \<open>2\<^sup>6\<^sup>3\<close> or
  more.
\<close>

type_synonym number = "dtype \<times> symbol"

fun iter :: "sequence \<Rightarrow> number list" where
  "iter (NdArray arr) = map (Pair (dtype arr)) (data arr)"
| "iter (PyList xs) = map (Pair Int64) xs"
| "iter (ArrayQ xs) = map (\<lambda>x. (if x < 2 ^ 63 then Int64 else UInt64, x)) xs"

definition array_empty :: "dtype \<Rightarrow> ndarray" where
  "array_empty t = \<lparr>dtype = t, data = []\<rparr>"

text \<open>
  The IEEE 754 binary64 pattern of an integer, rounded to nearest, ties to even: what
  numpy stores when an integer is converted to \<^verbatim>\<open>float64\<close>.
\<close>

fun bit_length :: "nat \<Rightarrow> nat" where
  "bit_length n = (if n = 0 then 0 else Suc (bit_length (n div 2)))"

declare bit_length.simps [simp del]

definition round_half_even :: "nat \<Rightarrow> nat \<Rightarrow> nat" where
  "round_half_even m k =
     (let q = m div 2 ^ k; r = m mod 2 ^ k; h = 2 ^ (k - 1)
      in if h < r \<or> (r = h \<and> odd q) then q + 1 else q)"

definition float64_of_int :: "int \<Rightarrow> 64 word" where
  "float64_of_int x =
     (if x = 0 then 0
      else
        let m = nat \<bar>x\<bar>;
            e = bit_length m - 1;
            significand = (if e \<le> 52 then m * 2 ^ (52 - e) else round_half_even m (e - 52));
            sign = (if x < 0 then 2 ^ 63 else 0)
        in word_of_nat (sign + (e + 1022) * 2 ^ 52 + significand))"

definition float64_of_int64 :: "symbol \<Rightarrow> symbol" where
  "float64_of_int64 w = float64_of_int (sint w)"

definition float64_of_uint64 :: "symbol \<Rightarrow> symbol" where
  "float64_of_uint64 w = float64_of_int (uint w)"

text \<open>
  The dtype of a concatenation: equal dtypes stay, integers and floats of different
  dtypes meet in \<^verbatim>\<open>float64\<close> (also \<^verbatim>\<open>int64\<close> with \<^verbatim>\<open>uint64\<close>), and \<^verbatim>\<open>datetime64\<close> has no common
  dtype with a number.
\<close>

definition promote_types :: "dtype \<Rightarrow> dtype \<Rightarrow> dtype option" where
  "promote_types a b =
     (if a = b then Some a
      else if a = Datetime64 \<or> b = Datetime64 then None
      else Some Float64)"

text \<open>
  The pattern of an item of dtype \<open>d\<close> in an array of the promoted dtype \<open>t\<close>: unchanged
  when the dtype stays, converted when an integer lands in a \<^verbatim>\<open>float64\<close> array (the only
  change of dtype a promotion makes).
\<close>

definition astype :: "dtype \<Rightarrow> dtype \<Rightarrow> symbol \<Rightarrow> symbol" where
  "astype d t w =
     (if d = t then w
      else case d of
        Int64 \<Rightarrow> float64_of_int64 w
      | UInt64 \<Rightarrow> float64_of_uint64 w
      | _ \<Rightarrow> w)"

text \<open>
  \<^verbatim>\<open>numpy.append(current_seq, number)\<close>: the concatenation of the buffer and the number,
  both cast to the promoted dtype, or \<^verbatim>\<open>DTypePromotionError\<close> when there is none.
\<close>

fun append_np :: "ndarray \<Rightarrow> number \<Rightarrow> error + ndarray" where
  "append_np arr (d, w) =
     (case promote_types (dtype arr) d of
        None \<Rightarrow> Inl DTypePromotionError
      | Some t \<Rightarrow> Inr \<lparr>dtype = t, data = map (astype (dtype arr) t) (data arr) @ [astype d t w]\<rparr>)"

text \<open>
  \<^verbatim>\<open>tobytes\<close>: the items' bytes in order. Every item has 8 bytes, so the byte string is
  kept as the list of the 8-byte patterns; the empty array gives the empty string
  whatever its dtype.
\<close>

type_synonym bytes = "64 word list"

definition tobytes :: "ndarray \<Rightarrow> bytes" where
  "tobytes arr = data arr"

text \<open>
  \<^verbatim>\<open>unique\<close>: the distinct items (numpy also sorts them; the code takes only the length).
  Floats are compared as numbers, so the two zeros are one item, and all NaNs count as
  one (\<^verbatim>\<open>equal_nan\<close> is true by default).
\<close>

definition isnan :: "symbol \<Rightarrow> bool" where
  "isnan w = (0x7FF0000000000000 < take_bit 63 w)"

definition canonical :: "dtype \<Rightarrow> symbol \<Rightarrow> symbol" where
  "canonical d w =
     (if d = Float64 then
        if isnan w then 0x7FF8000000000000
        else if w = 0x8000000000000000 then 0
        else w
      else w)"

definition unique :: "ndarray \<Rightarrow> symbol list" where
  "unique arr = remdups (map (canonical (dtype arr)) (data arr))"

section \<open>The phrase table and the parsing loop\<close>

text \<open>
  The table is a Python dict, kept in insertion order as an association list. Its keys
  are byte strings (the phrases) and, for the entry added at the end of the input, the
  integer \<^verbatim>\<open>-1\<close>.
\<close>

datatype key = BytesKey bytes | IntKey int

type_synonym table = "(key \<times> int) list"

fun setitem :: "key \<Rightarrow> int \<Rightarrow> table \<Rightarrow> table" where
  "setitem k v [] = [(k, v)]"
| "setitem k v ((k', v') # t) = (if k' = k then (k, v) # t else (k', v') # setitem k v t)"

definition contains :: "table \<Rightarrow> key \<Rightarrow> bool" where
  "contains t k = (k \<in> set (map fst t))"

text \<open>
  Lines 84 to 99: the loop over \<^verbatim>\<open>enumerate(sequence)\<close>, with \<^verbatim>\<open>n = len(sequence)\<close>.
  An exception in \<^verbatim>\<open>append\<close> leaves the function; \<^verbatim>\<open>break\<close> returns the table at once;
  \<^verbatim>\<open>continue\<close> goes on with the longer buffer. The buffer is created as \<^verbatim>\<open>int64\<close> on line 77
  and recreated by \<^verbatim>\<open>array([])\<close>, whose dtype is numpy's default \<^verbatim>\<open>float64\<close>, on line 99.
\<close>

fun loop :: "nat \<Rightarrow> (nat \<times> number) list \<Rightarrow> table \<Rightarrow> ndarray \<Rightarrow> error + table" where
  "loop n [] table current_seq = Inr table"
| "loop n ((idx, number) # rest) table current_seq =
     (case append_np current_seq number of
        Inl e \<Rightarrow> Inl e
      | Inr current_seq \<Rightarrow>
          if contains table (BytesKey (tobytes current_seq)) then
            if int idx = int n - 1 then Inr (setitem (IntKey (- 1)) (- 1) table)
            else loop n rest table current_seq
          else
            loop n rest
              (setitem (BytesKey (tobytes current_seq)) (int (length table)) table)
              (array_empty Float64))"

text \<open>Lines 76 and 77 followed by the loop: the table when the loop is left.\<close>

definition parse :: "sequence \<Rightarrow> error + table" where
  "parse sequence =
     loop (len sequence) (enumerate 0 (iter sequence))
       [(BytesKey (tobytes (array_empty Float64)), 0)] (array_empty Int64)"

text \<open>
  The table after the first \<open>m\<close> iterations of the loop (or after the \<^verbatim>\<open>break\<close>, when it
  came earlier): the body never looks ahead, so this is the same loop on the first \<open>m\<close>
  pairs.
\<close>

definition parse_upto :: "nat \<Rightarrow> sequence \<Rightarrow> error + table" where
  "parse_upto m sequence =
     loop (len sequence) (take m (enumerate 0 (iter sequence)))
       [(BytesKey (tobytes (array_empty Float64)), 0)] (array_empty Int64)"

text \<open>\<^verbatim>\<open>len(table)\<close> for the table the loop leaves, when it leaves one.\<close>

fun len_table :: "error + table \<Rightarrow> error + nat" where
  "len_table (Inl e) = Inl e"
| "len_table (Inr table) = Inr (length table)"

section \<open>Floating-point results\<close>

text \<open>
  The estimate is a \<^verbatim>\<open>float64\<close>. Rounding is not modelled: a finite result is its real
  value. The places where numpy leaves the finite numbers are kept: the logarithm of 0
  is \<^verbatim>\<open>-inf\<close> and a division by 0 gives \<^verbatim>\<open>inf\<close> or \<^verbatim>\<open>nan\<close>; all of these are \<open>None\<close>,
  and they stay \<open>None\<close> through the arithmetic of line 100.
\<close>

type_synonym float64 = "real option"

definition log2 :: "nat \<Rightarrow> float64" where
  "log2 k = (if k = 0 then None else Some (log 2 (real k)))"

definition ceil :: "float64 \<Rightarrow> float64" where
  "ceil x = map_option (\<lambda>r. real_of_int \<lceil>r\<rceil>) x"

definition float_add :: "float64 \<Rightarrow> float64 \<Rightarrow> float64" where
  "float_add x y = (case x of None \<Rightarrow> None | Some a \<Rightarrow> map_option (\<lambda>b. a + b) y)"

definition float_mul :: "nat \<Rightarrow> float64 \<Rightarrow> float64" where
  "float_mul k x = map_option (\<lambda>a. real k * a) x"

definition float_div :: "float64 \<Rightarrow> nat \<Rightarrow> float64" where
  "float_div x n = (if n = 0 then None else map_option (\<lambda>a. a / real n) x)"

section \<open>The estimator\<close>

text \<open>Lines 72 to 100, the code after the input check. An exception is \<open>Inl\<close>.\<close>

definition algorithm :: "sequence \<Rightarrow> error + float64" where
  "algorithm sequence =
     (if len sequence = 1 then Inr (Some 0)
      else
        let alpha_size = unique (array sequence) in
        if length alpha_size = 1 then Inr (Some 0)
        else
          let adl = ceil (log2 (length alpha_size)) in
          case parse sequence of
            Inl e \<Rightarrow> Inl e
          | Inr table \<Rightarrow>
              Inr (float_div (float_mul (length table) (float_add (log2 (length table)) adl))
                     (len sequence)))"

text \<open>
  Lines 44 to 100. Without the override the argument is rebound to its cast on line 66,
  and the rest of the function runs on the array; with it the rest runs on the argument
  as it was passed.
\<close>

definition erLZ78 :: "module_state \<Rightarrow> sequence \<Rightarrow> bool \<Rightarrow> error + float64" where
  "erLZ78 st sequence override_input_check =
     (if \<not> override_input_check then
        let sequence = array sequence in
        if kind (dtype sequence) \<in> set UNSUPPORTED_KINDS then
          Inl (ValueError (UNSUPPORTED_KIND_TEMPLATE [kind (dtype sequence)]))
        else if int (size_np sequence) < MINIMUM_SAMPLE_SIZE st then
          Inl (ValueError (InputError st))
        else algorithm (NdArray sequence)
      else algorithm sequence)"

section \<open>LZ78 parsing as the specification words it\<close>

text \<open>
  The reference parse on the symbols themselves: each phrase is the shortest prefix of
  the remaining input that is not yet in the dictionary. The result is the list of
  phrases found and whether the input ended inside a phrase already in the dictionary.
\<close>

fun spec_lz78 :: "'a list list \<Rightarrow> 'a list \<Rightarrow> 'a list \<Rightarrow> 'a list list \<times> bool" where
  "spec_lz78 dict buf [] = (dict, buf \<noteq> [])"
| "spec_lz78 dict buf (x # xs) =
     (if buf @ [x] \<in> set dict then spec_lz78 dict (buf @ [x]) xs
      else spec_lz78 (dict @ [buf @ [x]]) [] xs)"

definition spec_phrase_count :: "'a list \<Rightarrow> nat" where
  "spec_phrase_count sequence =
     (case spec_lz78 [] [] sequence of
        (phrases, trailing_repeat) \<Rightarrow> length phrases + 1 + (if trailing_repeat then 1 else 0))"

section \<open>The shape of a well-formed phrase table\<close>

fun is_phrase :: "key \<Rightarrow> bool" where
  "is_phrase (BytesKey b) = True"
| "is_phrase (IntKey i) = False"

definition phrase_entries :: "table \<Rightarrow> table" where
  "phrase_entries t = filter (\<lambda>e. is_phrase (fst e)) t"

text \<open>
  Keys are unique, the phrase inserted as the \<open>k\<close>-th (the seed being the 0th) has the
  value \<open>k\<close>, and the only entry that is not a phrase is the one \<^verbatim>\<open>table[-1] = -1\<close> adds
  last.
\<close>

definition table_invariant :: "table \<Rightarrow> bool" where
  "table_invariant t =
     (distinct (map fst t) \<and>
      map snd (phrase_entries t) = map int [0..<length (phrase_entries t)] \<and>
      (t = phrase_entries t \<or> t = phrase_entries t @ [(IntKey (- 1), - 1)]))"

text \<open>The same for a table that holds phrases only, as it is while the loop runs.\<close>

definition well_indexed :: "table \<Rightarrow> bool" where
  "well_indexed t =
     (distinct (map fst t) \<and> phrase_entries t = t \<and> map snd t = map int [0..<length t])"

section \<open>Facts about the table and the loop\<close>

lemma setitem_new: "k \<notin> fst ` set t \<Longrightarrow> setitem k v t = t @ [(k, v)]"
  by (induction t) auto

lemma length_setitem:
  "length (setitem k v t) = (if k \<in> fst ` set t then length t else Suc (length t))"
  by (induction t) force+

lemma phrase_entries_all: "phrase_entries t = t \<Longrightarrow> IntKey i \<notin> fst ` set t"
proof
  assume eq: "phrase_entries t = t" and "IntKey i \<in> fst ` set t"
  then obtain e where e: "e \<in> set t" "fst e = IntKey i" by auto
  from e(1) eq have "e \<in> set (phrase_entries t)" by simp
  then have "is_phrase (fst e)" by (simp add: phrase_entries_def)
  with e(2) show False by simp
qed

lemma well_indexed_invariant: "well_indexed t \<Longrightarrow> table_invariant t"
  by (simp add: well_indexed_def table_invariant_def)

lemma well_indexed_insert:
  assumes "well_indexed t" "\<not> contains t (BytesKey b)"
  shows "well_indexed (setitem (BytesKey b) (int (length t)) t)"
proof -
  from assms(2) have new: "BytesKey b \<notin> fst ` set t" by (simp add: contains_def)
  then have "setitem (BytesKey b) (int (length t)) t = t @ [(BytesKey b, int (length t))]"
    by (rule setitem_new)
  with assms(1) new show ?thesis
    by (simp add: well_indexed_def phrase_entries_def)
qed

lemma well_indexed_compensation:
  assumes "well_indexed t"
  shows "table_invariant (setitem (IntKey (- 1)) (- 1) t)"
proof -
  from assms have all: "phrase_entries t = t" by (simp add: well_indexed_def)
  then have new: "IntKey (- 1) \<notin> fst ` set t" by (rule phrase_entries_all)
  then have "setitem (IntKey (- 1)) (- 1) t = t @ [(IntKey (- 1), - 1)]"
    by (rule setitem_new)
  moreover have "phrase_entries (t @ [(IntKey (- 1), - 1)]) = t"
    using all by (simp add: phrase_entries_def)
  ultimately show ?thesis
    using assms new by (simp add: well_indexed_def table_invariant_def)
qed

lemma loop_invariant:
  "well_indexed table \<Longrightarrow> loop n ps table current_seq = Inr t \<Longrightarrow> table_invariant t"
proof (induction ps arbitrary: table current_seq)
  case Nil
  then show ?case by (auto simp: well_indexed_invariant)
next
  case (Cons p ps)
  obtain idx number where p: "p = (idx, number)" by (cases p)
  show ?case
  proof (cases "append_np current_seq number")
    case (Inl e)
    with Cons.prems(2) p show ?thesis by simp
  next
    case (Inr cur)
    show ?thesis
    proof (cases "contains table (BytesKey (tobytes cur))")
      case True
      with Cons p Inr show ?thesis
        by (auto simp: well_indexed_compensation split: if_splits)
    next
      case False
      with Cons.prems p Inr
      have "loop n ps (setitem (BytesKey (tobytes cur)) (int (length table)) table)
              (array_empty Float64) = Inr t"
        by simp
      moreover have "well_indexed (setitem (BytesKey (tobytes cur)) (int (length table)) table)"
        using Cons.prems(1) False by (rule well_indexed_insert)
      ultimately show ?thesis by (rule Cons.IH [rotated])
    qed
  qed
qed

lemma well_indexed_seed: "well_indexed [(BytesKey (tobytes (array_empty Float64)), 0)]"
  by (simp add: well_indexed_def phrase_entries_def)



text \<open>Without \<^verbatim>\<open>datetime64\<close> items \<^verbatim>\<open>append\<close> never raises, so the loop returns a table.\<close>

lemma append_np_returns:
  assumes "dtype arr \<noteq> Datetime64" and "fst number \<noteq> Datetime64"
  shows "\<exists>arr'. append_np arr number = Inr arr' \<and> dtype arr' \<noteq> Datetime64"
  using assms by (cases number) (auto simp: promote_types_def)

lemma loop_returns:
  assumes "dtype current_seq \<noteq> Datetime64" and "\<forall>p \<in> set ps. fst (snd p) \<noteq> Datetime64"
  shows "\<exists>t. loop n ps table current_seq = Inr t"
  using assms
proof (induction ps arbitrary: table current_seq)
  case Nil
  show ?case by simp
next
  case (Cons p ps)
  obtain idx number where p: "p = (idx, number)" by (cases p)
  with Cons.prems have "fst number \<noteq> Datetime64" by simp
  with Cons.prems(1) obtain cur where cur: "append_np current_seq number = Inr cur"
    "dtype cur \<noteq> Datetime64"
    using append_np_returns by blast
  have rest: "\<forall>p \<in> set ps. fst (snd p) \<noteq> Datetime64" using Cons.prems(2) by simp
  have "\<exists>t. loop n ps table cur = Inr t" using cur(2) rest by (rule Cons.IH)
  moreover have "\<exists>t. loop n ps tb (array_empty Float64) = Inr t" for tb
    using rest by (intro Cons.IH) (simp_all add: array_empty_def)
  ultimately show ?case using p cur(1) by simp
qed

lemma iter_dtypes:
  assumes "dtype (array sequence) \<noteq> Datetime64"
  shows "\<forall>p \<in> set (enumerate i (iter sequence)). fst (snd p) \<noteq> Datetime64"
  using assms
  by (cases sequence) (auto simp: enumerate_eq_zip dest!: set_zip_rightD split: if_splits)


lemma parse_upto_returns:
  assumes "dtype (array sequence) \<noteq> Datetime64"
  shows "\<exists>t. parse_upto m sequence = Inr t"
  unfolding parse_upto_def
proof (rule loop_returns)
  show "dtype (array_empty Int64) \<noteq> Datetime64" by (simp add: array_empty_def)
  show "\<forall>p \<in> set (take m (enumerate 0 (iter sequence))). fst (snd p) \<noteq> Datetime64"
    using iter_dtypes [OF assms, of 0] by (auto dest: in_set_takeD)
qed

lemma parse_upto_all: "parse_upto (len sequence) sequence = parse sequence"
  by (simp add: parse_upto_def parse_def len_def) (cases sequence; simp)

lemma array_array [simp]: "array (NdArray (array sequence)) = array sequence"
  by simp

lemma data_array [simp]: "data (array sequence) = items sequence"
  by (cases sequence) simp_all

lemma len_array [simp]: "len (NdArray (array sequence)) = len sequence"
  by (simp add: len_def)

lemma length_unique: "length (unique arr) = card (canonical (dtype arr) ` set (data arr))"
  by (simp add: unique_def length_remdups_card_conv)


lemma unique_single:
  assumes "card (set (data arr)) = 1"
  shows "length (unique arr) = 1"
proof -
  from assms obtain w where "set (data arr) = {w}" by (auto simp: card_1_singleton_iff)
  then show ?thesis by (simp add: length_unique)
qed

section \<open>Facts about the estimator\<close>

lemma size_np_array: "size_np (array sequence) = len sequence"
  by (simp add: size_np_def len_def)

lemma erLZ78_checked:
  assumes "ov \<or> (kind (dtype (array sequence)) \<notin> set UNSUPPORTED_KINDS \<and>
                  MINIMUM_SAMPLE_SIZE st \<le> int (len sequence))"
  shows "erLZ78 st sequence ov = algorithm (if ov then sequence else NdArray (array sequence))"
  using assms by (auto simp: erLZ78_def Let_def size_np_array)

lemma algorithm_bypass:
  assumes "len sequence = 1 \<or> length (unique (array sequence)) = 1"
  shows "algorithm sequence = Inr (Some 0)"
  using assms by (auto simp: algorithm_def Let_def)


lemma algorithm_raises:
  assumes "len sequence \<noteq> 1" and "length (unique (array sequence)) \<noteq> 1"
    and "parse sequence = Inl e"
  shows "algorithm sequence = Inl e"
  using assms by (simp add: algorithm_def Let_def)


lemma iter_cast_NdArray: "iter (NdArray (array (NdArray arr))) = iter (NdArray arr)"
  by simp

lemma iter_cast_PyList: "iter (NdArray (array (PyList xs))) = iter (PyList xs)"
  by simp

lemma algorithm_cast:
  assumes "iter (NdArray (array sequence)) = iter sequence"
  shows "algorithm (NdArray (array sequence)) = algorithm sequence"
proof -
  have p: "parse (NdArray (array sequence)) = parse sequence"
    unfolding parse_def len_array using assms by (simp only:)
  show ?thesis
    unfolding algorithm_def p len_array array_array ..
qed

section \<open>The module on concrete inputs\<close>

lemma loaded_state:
  "MINIMUM_SAMPLE_SIZE loaded = 5"
  "InputError loaded = INPUT_ERROR_TEMPLATE ''5''"
  by (simp_all add: loaded_def set_minimum_size_def Let_def str_int_def str_nat.simps digit_def)


lemma str_int_5: "str_int 5 = ''5''"
  by (simp add: str_int_def str_nat.simps digit_def)

lemma kinds_supported:
  "CHR ''i'' \<notin> set UNSUPPORTED_KINDS" "CHR ''u'' \<notin> set UNSUPPORTED_KINDS"
  "CHR ''M'' \<notin> set UNSUPPORTED_KINDS" "CHR ''f'' \<in> set UNSUPPORTED_KINDS"
  by (simp_all add: UNSUPPORTED_KINDS_def)

lemma bit_length_1: "bit_length (Suc 0) = Suc 0"
  by (simp add: bit_length.simps)

lemma float64_of_int_0: "float64_of_int 0 = 0"
  by (simp add: float64_of_int_def)

lemma float64_of_int_1: "float64_of_int 1 = 0x3FF0000000000000"
  by (simp add: float64_of_int_def bit_length_1)

lemma float64_of_0: "float64_of_int64 0 = 0" "float64_of_uint64 0 = 0"
  by (simp_all add: float64_of_int64_def float64_of_uint64_def float64_of_int_0)

lemma float64_of_1:
  "float64_of_int64 1 = 0x3FF0000000000000" "float64_of_uint64 1 = 0x3FF0000000000000"
  by (simp_all add: float64_of_int64_def float64_of_uint64_def float64_of_int_1)

lemmas run = parse_def parse_upto_def len_def enumerate_eq_zip promote_types_def astype_def
  tobytes_def array_empty_def contains_def float64_of_0 float64_of_1 upt_rec


lemma unique_Q_11010: "length (unique \<lparr>dtype = UInt64, data = [1, 1, 0, 1, 0]\<rparr>) = 2"
  by (simp add: unique_def canonical_def)




lemma parse_11010:
  "parse (PyList [1, 1, 0, 1, 0]) =
     Inr [(BytesKey [], 0), (BytesKey [1], 1), (BytesKey [0x3FF0000000000000], 2),
          (BytesKey [0], 3), (BytesKey [0x3FF0000000000000, 0], 4)]"
  by (simp add: run)

lemma parse_00101:
  "parse (PyList [0, 0, 1, 0, 1]) =
     Inr [(BytesKey [], 0), (BytesKey [0], 1), (BytesKey [0, 0x3FF0000000000000], 2),
          (IntKey (- 1), - 1)]"
  by (simp add: run)

lemma parse_110:
  "parse (PyList [1, 1, 0]) =
     Inr [(BytesKey [], 0), (BytesKey [1], 1), (BytesKey [0x3FF0000000000000], 2),
          (BytesKey [0], 3)]"
  by (simp add: run)

lemma parse_001:
  "parse (PyList [0, 0, 1]) =
     Inr [(BytesKey [], 0), (BytesKey [0], 1), (BytesKey [0, 0x3FF0000000000000], 2)]"
  by (simp add: run)

lemma parse_upto_3_11010:
  "parse_upto 3 (PyList [1, 1, 0, 1, 0]) =
     Inr [(BytesKey [], 0), (BytesKey [1], 1), (BytesKey [0x3FF0000000000000], 2),
          (BytesKey [0], 3)]"
  by (simp add: run)

text \<open>
  \<^verbatim>\<open>array.array('Q', [1, 1, 0, 1, 0])\<close>: iterated as it is, the items are Python integers
  and the first one is stored as an \<^verbatim>\<open>int64\<close>; after the cast they are \<^verbatim>\<open>uint64\<close> scalars
  and every buffer is a \<^verbatim>\<open>float64\<close> array.
\<close>

lemma parse_Q_11010:
  "parse (ArrayQ [1, 1, 0, 1, 0]) =
     Inr [(BytesKey [], 0), (BytesKey [1], 1), (BytesKey [0x3FF0000000000000], 2),
          (BytesKey [0], 3), (BytesKey [0x3FF0000000000000, 0], 4)]"
  by (simp add: run)

lemma parse_u_11010:
  "parse (NdArray \<lparr>dtype = UInt64, data = [1, 1, 0, 1, 0]\<rparr>) =
     Inr [(BytesKey [], 0), (BytesKey [0x3FF0000000000000], 1),
          (BytesKey [0x3FF0000000000000, 0], 2), (IntKey (- 1), - 1)]"
  by (simp add: run)



lemma log_2_4: "log 2 4 = 2"
proof -
  have "log 2 (2 ^ 2) = real 2" by (rule log_pow_cancel) simp_all
  then show ?thesis by simp
qed

lemma log_2_5: "2 < log 2 5"
proof -
  have "log 2 4 < log 2 5" by simp
  then show ?thesis by (simp add: log_2_4)
qed

section \<open>What the estimator can raise and when it returns\<close>




lemma unique_11010: "length (unique \<lparr>dtype = Int64, data = [1, 1, 0, 1, 0]\<rparr>) = 2"
  by (simp add: unique_def canonical_def)


lemma parse_i_11010:
  "parse (NdArray \<lparr>dtype = Int64, data = [1, 1, 0, 1, 0]\<rparr>) =
     Inr [(BytesKey [], 0), (BytesKey [1], 1), (BytesKey [0x3FF0000000000000], 2),
          (BytesKey [0], 3), (BytesKey [0x3FF0000000000000, 0], 4)]"
  by (simp add: run)


text \<open>
  Where the cast of line 66 leaves the items as iteration yields them, the override
  does not change the result of a call that passes the input check.
\<close>

lemma override_same_when_cast_keeps_items:
  assumes "kind (dtype (array sequence)) \<notin> set UNSUPPORTED_KINDS"
    and "MINIMUM_SAMPLE_SIZE st \<le> int (len sequence)"
    and "iter (NdArray (array sequence)) = iter sequence"
  shows "erLZ78 st sequence True = erLZ78 st sequence False"
  using assms(1,2) algorithm_cast [OF assms(3)]
  by (simp add: erLZ78_def Let_def size_np_array)

section \<open>The loop is an LZ78 parse of the stored patterns\<close>

text \<open>
  The keys are the byte strings of the buffers, so the loop parses the sequence of
  patterns it stores: the first item in the dtype it has after being appended to the
  \<^verbatim>\<open>int64\<close> buffer, every later item converted to \<^verbatim>\<open>float64\<close>. Where the conversion leaves
  the first item alone and is injective on the items (as on 0 and 1 with a leading 0),
  this is the LZ78 parse of the sequence itself.
\<close>

lemma keys_contains:
  assumes "map fst table = BytesKey [] # map BytesKey dict" and "b \<noteq> []"
  shows "contains table (BytesKey b) \<longleftrightarrow> b \<in> set dict"
proof -
  have "contains table (BytesKey b) \<longleftrightarrow> BytesKey b \<in> set (BytesKey [] # map BytesKey dict)"
    by (simp add: contains_def assms(1))
  also have "\<dots> \<longleftrightarrow> b \<in> set dict" using assms(2) by auto
  finally show ?thesis .
qed

lemma keys_length:
  assumes "map fst table = BytesKey [] # map BytesKey dict"
  shows "length table = Suc (length dict)"
proof -
  have "length table = length (map fst table)" by simp
  also have "\<dots> = Suc (length dict)" by (simp add: assms)
  finally show ?thesis .
qed

lemma keys_compensation:
  assumes "map fst table = BytesKey [] # map BytesKey dict"
  shows "length (setitem (IntKey (- 1)) (- 1) table) = Suc (Suc (length dict))"
proof -
  have "IntKey (- 1) \<notin> set (map fst table)" by (auto simp: assms)
  then have "IntKey (- 1) \<notin> fst ` set table" by simp
  then show ?thesis by (simp add: length_setitem keys_length [OF assms])
qed

lemma keys_insert:
  assumes "map fst table = BytesKey [] # map BytesKey dict" and "\<not> contains table (BytesKey b)"
  shows "map fst (setitem (BytesKey b) v table) = BytesKey [] # map BytesKey (dict @ [b])"
proof -
  from assms(2) have "BytesKey b \<notin> fst ` set table" by (simp add: contains_def)
  then have "setitem (BytesKey b) v table = table @ [(BytesKey b, v)]" by (rule setitem_new)
  then show ?thesis by (simp add: assms(1))
qed

lemma map_astype_same: "map (astype d d) xs = xs"
  by (simp add: map_idI astype_def)

lemma append_np_float:
  assumes "d \<noteq> Datetime64"
  shows "append_np \<lparr>dtype = Float64, data = buf\<rparr> (d, w) =
           Inr \<lparr>dtype = Float64, data = buf @ [astype d Float64 w]\<rparr>"
  using assms by (simp add: promote_types_def map_astype_same)

lemma loop_lz78:
  assumes "map fst table = BytesKey [] # map BytesKey dict"
    and "i + length ps = n" and "ps = [] \<longrightarrow> buf = []"
    and "\<forall>p \<in> set ps. fst p \<noteq> Datetime64"
  shows "len_table (loop n (enumerate i ps) table \<lparr>dtype = Float64, data = buf\<rparr>) =
     Inr (case spec_lz78 dict buf (map (\<lambda>(d, w). astype d Float64 w) ps) of
            (phrases, trailing_repeat) \<Rightarrow>
              length phrases + 1 + (if trailing_repeat then 1 else 0))"
  using assms
proof (induction ps arbitrary: i table dict buf)
  case Nil
  then show ?case by (simp add: keys_length)
next
  case (Cons number rest)
  obtain d w where number: "number = (d, w)" by (cases number)
  let ?b = "buf @ [astype d Float64 w]"
  have d: "d \<noteq> Datetime64" using Cons.prems(4) number by simp
  have rest: "\<forall>p \<in> set rest. fst p \<noteq> Datetime64" using Cons.prems(4) by simp
  have b: "append_np \<lparr>dtype = Float64, data = buf\<rparr> (d, w) = Inr \<lparr>dtype = Float64, data = ?b\<rparr>"
    using d by (rule append_np_float)
  have found: "contains table (BytesKey ?b) \<longleftrightarrow> ?b \<in> set dict"
    by (rule keys_contains [OF Cons.prems(1)]) simp
  have last: "int i = int n - 1 \<longleftrightarrow> rest = []"
    using Cons.prems(2) by auto
  show ?case
  proof (cases "?b \<in> set dict")
    case True
    show ?thesis
    proof (cases "rest = []")
      case True
      with \<open>?b \<in> set dict\<close> found last show ?thesis
        by (simp add: b number tobytes_def keys_compensation [OF Cons.prems(1)]
            del: append_np.simps)
    next
      case False
      have "len_table
              (loop n (enumerate (Suc i) rest) table \<lparr>dtype = Float64, data = ?b\<rparr>) =
        Inr (case spec_lz78 dict ?b (map (\<lambda>(d, w). astype d Float64 w) rest) of
           (phrases, trailing_repeat) \<Rightarrow>
             length phrases + 1 + (if trailing_repeat then 1 else 0))"
        using Cons.prems(1,2) False rest by (intro Cons.IH) auto
      with \<open>?b \<in> set dict\<close> found last False show ?thesis
        by (simp add: b number tobytes_def del: append_np.simps)
    qed
  next
    case False
    let ?t = "setitem (BytesKey ?b) (int (length table)) table"
    have new: "\<not> contains table (BytesKey ?b)" using False found by simp
    have "len_table
            (loop n (enumerate (Suc i) rest) ?t \<lparr>dtype = Float64, data = []\<rparr>) =
        Inr (case spec_lz78 (dict @ [?b]) [] (map (\<lambda>(d, w). astype d Float64 w) rest) of
           (phrases, trailing_repeat) \<Rightarrow>
             length phrases + 1 + (if trailing_repeat then 1 else 0))"
      using Cons.prems(2) rest by (intro Cons.IH keys_insert [OF Cons.prems(1) new]) auto
    with False new show ?thesis
      by (simp add: b number tobytes_def array_empty_def del: append_np.simps)
  qed
qed

lemma length_iter: "length (iter sequence) = len sequence"
  by (cases sequence) (simp_all add: len_def)

lemma parse_lz78_of_patterns:
  assumes "iter sequence = (d, w) # rest" and "\<forall>p \<in> set (iter sequence). fst p \<noteq> Datetime64"
  shows "len_table (parse sequence) =
     Inr (spec_phrase_count
            ((if d = Int64 then w else astype d Float64 w) #
             map (\<lambda>(d, w). astype d Float64 w) rest))"
proof -
  define x where "x = (if d = Int64 then w else astype d Float64 w)"
  define t where "t = (if d = Int64 then Int64 else Float64)"
  have d: "d \<noteq> Datetime64" and rest: "\<forall>p \<in> set rest. fst p \<noteq> Datetime64"
    using assms by simp_all
  have n: "len sequence = Suc (length rest)"
    using length_iter [of sequence] assms(1) by simp
  have first: "append_np \<lparr>dtype = Int64, data = []\<rparr> (d, w) = Inr \<lparr>dtype = t, data = [x]\<rparr>"
    using d by (simp add: x_def t_def promote_types_def astype_def)
  have "len_table
          (loop (len sequence) (enumerate 1 rest) [(BytesKey [], 0), (BytesKey [x], 1)]
             \<lparr>dtype = Float64, data = []\<rparr>) =
     Inr (case spec_lz78 [[x]] [] (map (\<lambda>(d, w). astype d Float64 w) rest) of
        (phrases, trailing_repeat) \<Rightarrow>
          length phrases + 1 + (if trailing_repeat then 1 else 0))"
    using rest n by (intro loop_lz78) simp_all
  then have "len_table (parse sequence) =
     Inr (spec_phrase_count (x # map (\<lambda>(d, w). astype d Float64 w) rest))"
    unfolding parse_def assms(1)
    by (simp add: first spec_phrase_count_def tobytes_def array_empty_def contains_def
        del: append_np.simps)
  then show ?thesis by (simp only: x_def)
qed

lemma parse_PyList_patterns:
  "len_table (parse (PyList (x # xs))) =
     Inr (spec_phrase_count (x # map float64_of_int64 xs))"
proof -
  have "len_table (parse (PyList (x # xs))) =
     Inr (spec_phrase_count
            ((if Int64 = Int64 then x else astype Int64 Float64 x) #
             map (\<lambda>(d, w). astype d Float64 w) (map (Pair Int64) xs)))"
    by (rule parse_lz78_of_patterns) auto
  then show ?thesis by (simp add: astype_def comp_def)
qed

lemma spec_lz78_map:
  assumes "inj_on g S" and "set buf \<subseteq> S" and "set xs \<subseteq> S" and "\<forall>p \<in> set dict. set p \<subseteq> S"
  shows "spec_lz78 (map (map g) dict) (map g buf) (map g xs) =
     (case spec_lz78 dict buf xs of (phrases, trailing_repeat) \<Rightarrow>
        (map (map g) phrases, trailing_repeat))"
  using assms(2-)
proof (induction xs arbitrary: dict buf)
  case Nil
  show ?case by simp
next
  case (Cons x xs)
  have mem: "map g (buf @ [x]) \<in> set (map (map g) dict) \<longleftrightarrow> buf @ [x] \<in> set dict"
  proof
    assume "map g (buf @ [x]) \<in> set (map (map g) dict)"
    then obtain p where p: "p \<in> set dict" "map g p = map g (buf @ [x])" by auto
    have "set p \<union> set (buf @ [x]) \<subseteq> S" using p(1) Cons.prems by auto
    then have "inj_on g (set p \<union> set (buf @ [x]))" by (rule inj_on_subset [OF assms(1)])
    with p(2) have "p = buf @ [x]" by (rule map_inj_on)
    with p(1) show "buf @ [x] \<in> set dict" by simp
  next
    assume "buf @ [x] \<in> set dict"
    then show "map g (buf @ [x]) \<in> set (map (map g) dict)" by (simp del: map_append)
  qed
  show ?case
  proof (cases "buf @ [x] \<in> set dict")
    case True
    have "spec_lz78 (map (map g) dict) (map g (buf @ [x])) (map g xs) =
      (case spec_lz78 dict (buf @ [x]) xs of (phrases, trailing_repeat) \<Rightarrow>
         (map (map g) phrases, trailing_repeat))"
      using Cons.prems by (intro Cons.IH) auto
    with True mem show ?thesis by simp
  next
    case False
    have "spec_lz78 (map (map g) (dict @ [buf @ [x]])) (map g []) (map g xs) =
      (case spec_lz78 (dict @ [buf @ [x]]) [] xs of (phrases, trailing_repeat) \<Rightarrow>
         (map (map g) phrases, trailing_repeat))"
      using Cons.prems by (intro Cons.IH) auto
    with False mem show ?thesis by simp
  qed
qed

lemma spec_phrase_count_map:
  assumes "inj_on g (set xs)"
  shows "spec_phrase_count (map g xs) = spec_phrase_count xs"
proof -
  have "spec_lz78 (map (map g) []) (map g []) (map g xs) =
     (case spec_lz78 [] [] xs of (phrases, trailing_repeat) \<Rightarrow>
        (map (map g) phrases, trailing_repeat))"
    by (rule spec_lz78_map [OF assms]) simp_all
  then show ?thesis
    by (simp add: spec_phrase_count_def split: prod.splits)
qed

lemma parse_agrees_with_spec:
  assumes "float64_of_int64 x = x" and "inj_on float64_of_int64 (set (x # xs))"
  shows "len_table (parse (PyList (x # xs))) = Inr (spec_phrase_count (x # xs))"
proof -
  have "len_table (parse (PyList (x # xs))) =
      Inr (spec_phrase_count (map float64_of_int64 (x # xs)))"
    by (simp add: parse_PyList_patterns assms(1))
  also have "spec_phrase_count (map float64_of_int64 (x # xs)) = spec_phrase_count (x # xs)"
    by (rule spec_phrase_count_map [OF assms(2)])
  finally show ?thesis .
qed

lemma parse_binary_from_0:
  assumes "set xs \<subseteq> {0, 1}"
  shows "len_table (parse (PyList (0 # xs))) = Inr (spec_phrase_count (0 # xs))"
proof (rule parse_agrees_with_spec)
  show "float64_of_int64 0 = 0" by (rule float64_of_0)
  have "inj_on float64_of_int64 {0, 1}"
    by (simp add: float64_of_0 float64_of_1)
  then show "inj_on float64_of_int64 (set (0 # xs))"
    by (rule inj_on_subset) (use assms in auto)
qed

section \<open>The message determines the threshold\<close>

lemma digit_code:
  assumes "d < 10"
  shows "of_char (digit d) = 48 + d"
proof -
  from assms have "d \<in> {0, 1, 2, 3, 4, 5, 6, 7, 8, 9}" by auto
  then show ?thesis by (auto simp: digit_def)
qed

lemma digit_inj:
  assumes "a < 10" and "b < 10" and "digit a = digit b"
  shows "a = b"
proof -
  have "48 + a = (of_char (digit a) :: nat)" using assms(1) by (simp add: digit_code)
  also have "\<dots> = 48 + b" using assms(2,3) by (simp add: digit_code)
  finally show ?thesis by simp
qed

lemma digit_not_minus:
  assumes "d < 10"
  shows "digit d \<noteq> CHR ''-''"
proof
  assume "digit d = CHR ''-''"
  then have "(of_char (digit d) :: nat) = of_char CHR ''-''" by simp
  then show False using assms by (simp add: digit_code)
qed

lemma str_nat_digits: "set (str_nat n) \<subseteq> digit ` {..<10}"
proof (induction n rule: str_nat.induct)
  case (1 n)
  show ?case
  proof (cases "n < 10")
    case True
    then show ?thesis by (simp add: str_nat.simps [of n])
  next
    case False
    then have "set (str_nat (n div 10)) \<subseteq> digit ` {..<10}" by (rule 1)
    moreover have "digit (n mod 10) \<in> digit ` {..<10}" by simp
    ultimately show ?thesis using False by (simp add: str_nat.simps [of n])
  qed
qed

lemma str_nat_not_Nil: "str_nat n \<noteq> []" "[] \<noteq> str_nat n"
  by (simp_all add: str_nat.simps [of n])

lemma str_nat_inj: "str_nat a = str_nat b \<Longrightarrow> a = b"
proof (induction a arbitrary: b rule: str_nat.induct)
  case (1 a)
  show ?case
  proof (cases "a < 10")
    case True
    show ?thesis
    proof (cases "b < 10")
      case True
      with \<open>a < 10\<close> "1.prems" show ?thesis
        by (simp add: str_nat.simps [of a] str_nat.simps [of b] digit_inj)
    next
      case False
      with \<open>a < 10\<close> "1.prems" show ?thesis
        by (simp add: str_nat.simps [of a] str_nat.simps [of b] str_nat_not_Nil)
    qed
  next
    case False
    show ?thesis
    proof (cases "b < 10")
      case True
      with \<open>\<not> a < 10\<close> "1.prems" show ?thesis
        by (simp add: str_nat.simps [of a] str_nat.simps [of b] str_nat_not_Nil)
    next
      case False
      with \<open>\<not> a < 10\<close> "1.prems"
      have eq: "str_nat (a div 10) = str_nat (b div 10)" "digit (a mod 10) = digit (b mod 10)"
        by (simp_all add: str_nat.simps [of a] str_nat.simps [of b])
      from eq(1) have "a div 10 = b div 10" by (rule "1.IH" [OF \<open>\<not> a < 10\<close>])
      moreover from eq(2) have "a mod 10 = b mod 10" by (intro digit_inj) simp_all
      ultimately show ?thesis by (metis div_mult_mod_eq)
    qed
  qed
qed

lemma str_nat_no_minus: "hd (str_nat n) \<noteq> CHR ''-''"
proof -
  have "hd (str_nat n) \<in> set (str_nat n)" by (simp add: str_nat_not_Nil)
  then obtain d where "d < 10" "hd (str_nat n) = digit d" using str_nat_digits by auto
  then show ?thesis by (simp add: digit_not_minus)
qed

lemma str_int_inj: "str_int a = str_int b \<Longrightarrow> a = b"
proof -
  assume eq: "str_int a = str_int b"
  have neg: "str_nat m \<noteq> CHR ''-'' # cs" "CHR ''-'' # cs \<noteq> str_nat m" for m cs
    using str_nat_no_minus [of m] by (cases "str_nat m"; auto)+
  show "a = b"
  proof (cases "a < 0")
    case True
    with eq neg have "b < 0" by (auto simp: str_int_def split: if_splits)
    with True eq have "nat (- a) = nat (- b)" by (simp add: str_int_def str_nat_inj)
    with True \<open>b < 0\<close> show ?thesis by simp
  next
    case False
    with eq neg have "\<not> b < 0" by (auto simp: str_int_def split: if_splits)
    with False eq have "nat a = nat b" by (simp add: str_int_def str_nat_inj)
    with False \<open>\<not> b < 0\<close> show ?thesis by simp
  qed
qed

lemma InputError_message_inj:
  "InputError (set_minimum_size a st) = InputError (set_minimum_size b st') \<Longrightarrow> a = b"
  by (simp add: set_minimum_size_def Let_def INPUT_ERROR_TEMPLATE_def str_int_inj)

section \<open>The claims\<close>




text \<open>
  C2. The claim counts the LZ78 phrases of the sequence: \<open>k\<close> phrases give \<open>c = k + 1\<close>, or
  \<open>c = k + 2\<close> when the input ends inside a known phrase. The code does not: the first
  phrase is stored under its \<^verbatim>\<open>int64\<close> bytes and every later buffer is a \<^verbatim>\<open>float64\<close>
  array (line 99 drops the \<^verbatim>\<open>dtype\<close> that line 77 sets), so a first symbol other than 0
  is not recognised when it comes back and enters the table a second time.
  \<^verbatim>\<open>[1, 1, 0]\<close> has the 2 phrases \<^verbatim>\<open>1\<close>, \<^verbatim>\<open>1 0\<close> and no trailing repeat, yet \<open>c = 4\<close>;
  \<^verbatim>\<open>[1, 1, 0, 1, 0]\<close> has the same 2 phrases and a trailing repeat, yet \<open>c = 5\<close>, also in
  the default call. The same sequences with 0 and 1 exchanged give the counts of the
  claim, 3 and 4 (\<open>parse_PyList_patterns\<close> and \<open>parse_binary_from_0\<close> give the general
  picture).
\<close>

theorem first_phrase_counted_twice:
  "spec_lz78 [] [] [1, 1, 0 :: symbol] = ([[1], [1, 0]], False) \<and>
   len_table (parse (PyList [1, 1, 0])) = Inr 4 \<and>
   spec_lz78 [] [] [1, 1, 0, 1, 0 :: symbol] = ([[1], [1, 0]], True) \<and>
   len_table (parse (PyList [1, 1, 0, 1, 0])) = Inr 5 \<and>
   erLZ78 loaded (PyList [1, 1, 0, 1, 0]) False = Inr (Some (5 * (log 2 5 + 1) / 5)) \<and>
   spec_lz78 [] [] [0, 0, 1 :: symbol] = ([[0], [0, 1]], False) \<and>
   len_table (parse (PyList [0, 0, 1])) = Inr 3 \<and>
   spec_lz78 [] [] [0, 0, 1, 0, 1 :: symbol] = ([[0], [0, 1]], True) \<and>
   len_table (parse (PyList [0, 0, 1, 0, 1])) = Inr 4"
  by (simp add: parse_110 parse_11010 parse_001 parse_00101 parse_i_11010 unique_11010
      erLZ78_def Let_def algorithm_def size_np_def len_def loaded_state kinds_supported log2_def
      ceil_def float_add_def float_mul_def float_div_def)



text \<open>
  C4, as stated, fails: with the loaded module and no override a sequence of length 1 is
  shorter than the minimum of 5, and \<^verbatim>\<open>erLZ78\<close> raises \<^verbatim>\<open>InputError\<close> instead of returning
  0.
\<close>

theorem erLZ78_length_1_counterexample:
  "length (items (PyList [0])) = 1 \<and>
   erLZ78 loaded (PyList [0]) False = Inl (ValueError (INPUT_ERROR_TEMPLATE ''5'')) \<and>
   erLZ78 loaded (PyList [0]) False \<noteq> Inr (Some 0)"
  by (simp add: erLZ78_def Let_def size_np_def loaded_state kinds_supported)

text \<open>
  C4, amended. For a sequence of length 1 on which the input check is overridden or
  passes (a supported kind and a minimum sample size of at most 1), \<^verbatim>\<open>erLZ78\<close> returns
  exactly 0.
\<close>

theorem erLZ78_length_1:
  assumes "length (items sequence) = 1"
    and "ov \<or> (kind (dtype (array sequence)) \<notin> set UNSUPPORTED_KINDS \<and>
                MINIMUM_SAMPLE_SIZE st \<le> 1)"
  shows "erLZ78 st sequence ov = Inr (Some 0)"
proof -
  from assms(1) have "len (if ov then sequence else NdArray (array sequence)) = 1"
    by (simp add: len_def)
  then have "algorithm (if ov then sequence else NdArray (array sequence)) = Inr (Some 0)"
    by (intro algorithm_bypass) simp
  moreover have "erLZ78 st sequence ov =
      algorithm (if ov then sequence else NdArray (array sequence))"
    using assms by (intro erLZ78_checked) (auto simp: len_def)
  ultimately show ?thesis by simp
qed

text \<open>After \<^verbatim>\<open>set_minimum_size(1)\<close> the sequence \<^verbatim>\<open>[7]\<close> passes the check.\<close>

theorem erLZ78_length_1_witness:
  "erLZ78 (set_minimum_size 1 loaded) (PyList [7]) False = Inr (Some 0)"
  using erLZ78_length_1 [of "PyList [7]" False "set_minimum_size 1 loaded"]
  by (simp add: set_minimum_size_def Let_def kinds_supported)

text \<open>
  C5, as stated, fails: \<^verbatim>\<open>[0, 0, 0]\<close> has a single symbol, but with the loaded module and
  no override it is shorter than the minimum of 5 and \<^verbatim>\<open>erLZ78\<close> raises \<^verbatim>\<open>InputError\<close>.
\<close>

theorem erLZ78_single_symbol_counterexample:
  "card (set (items (PyList [0, 0, 0]))) = 1 \<and>
   erLZ78 loaded (PyList [0, 0, 0]) False = Inl (ValueError (INPUT_ERROR_TEMPLATE ''5'')) \<and>
   erLZ78 loaded (PyList [0, 0, 0]) False \<noteq> Inr (Some 0)"
  by (simp add: erLZ78_def Let_def size_np_def loaded_state kinds_supported)

text \<open>
  C5, amended. For a sequence with a single distinct symbol, whatever its length, on
  which the input check is overridden or passes, \<^verbatim>\<open>erLZ78\<close> returns exactly 0.
\<close>

theorem erLZ78_single_symbol:
  assumes "card (set (items sequence)) = 1"
    and "ov \<or> (kind (dtype (array sequence)) \<notin> set UNSUPPORTED_KINDS \<and>
                MINIMUM_SAMPLE_SIZE st \<le> int (len sequence))"
  shows "erLZ78 st sequence ov = Inr (Some 0)"
proof -
  let ?s = "if ov then sequence else NdArray (array sequence)"
  from assms(1) have "card (set (data (array ?s))) = 1" by simp
  then have "length (unique (array ?s)) = 1" by (rule unique_single)
  then have "algorithm ?s = Inr (Some 0)" by (intro algorithm_bypass) simp
  then show ?thesis using erLZ78_checked [OF assms(2)] by simp
qed

text \<open>The sequence \<^verbatim>\<open>[0, 0, 0, 0, 0]\<close> under the loaded module.\<close>

theorem erLZ78_single_symbol_witness:
  "erLZ78 loaded (PyList [0, 0, 0, 0, 0]) False = Inr (Some 0)"
  using erLZ78_single_symbol [of "PyList [0, 0, 0, 0, 0]" False loaded]
  by (simp add: loaded_state kinds_supported len_def)




text \<open>
  C7. After any number \<open>m\<close> of iterations of the loop the table's keys are unique and
  the phrase inserted as the \<open>k\<close>-th, the seed being the 0th, has the value \<open>k\<close>: each
  insertion on line 98 uses the size of the table. The only other entry is the one
  line 89 adds last. Without \<^verbatim>\<open>datetime64\<close> items the loop always gets that far.
\<close>

theorem phrase_table_invariant:
  "(dtype (array sequence) \<noteq> Datetime64 \<longrightarrow> (\<exists>t. parse_upto m sequence = Inr t)) \<and>
   (\<forall>t. parse_upto m sequence = Inr t \<longrightarrow> table_invariant t)"
proof
  show "dtype (array sequence) \<noteq> Datetime64 \<longrightarrow> (\<exists>t. parse_upto m sequence = Inr t)"
    using parse_upto_returns by blast
  show "\<forall>t. parse_upto m sequence = Inr t \<longrightarrow> table_invariant t"
    unfolding parse_upto_def using loop_invariant [OF well_indexed_seed] by blast
qed

text \<open>The table after three iterations on \<^verbatim>\<open>[1, 1, 0, 1, 0]\<close>.\<close>

theorem phrase_table_invariant_witness:
  "parse_upto 3 (PyList [1, 1, 0, 1, 0]) =
     Inr [(BytesKey [], 0), (BytesKey [1], 1), (BytesKey [0x3FF0000000000000], 2),
          (BytesKey [0], 3)] \<and>
   table_invariant
     [(BytesKey [], 0), (BytesKey [1], 1), (BytesKey [0x3FF0000000000000], 2),
      (BytesKey [0], 3)]"
  using phrase_table_invariant [of "PyList [1, 1, 0, 1, 0]" 3]
  by (simp add: parse_upto_3_11010)







text \<open>
  C10. The docstring presents the override as a faster way to the same estimate, as the
  claim does. The code breaks this: \<^verbatim>\<open>array.array('Q', [1, 1, 0, 1, 0])\<close> passes the input
  check of the loaded module (its cast is a \<^verbatim>\<open>uint64\<close> array of length 5), yet the two
  calls differ. Without the override the loop sees \<^verbatim>\<open>uint64\<close> scalars, every buffer is a
  \<^verbatim>\<open>float64\<close> array and the table has 4 entries; with it the loop sees Python integers,
  the first phrase is stored under its \<^verbatim>\<open>int64\<close> bytes and, as in C2, enters the table a
  second time: 5 entries. Where the cast leaves the items as they are (numpy arrays,
  lists of Python integers) both calls agree, by \<open>override_same_when_cast_keeps_items\<close>.
\<close>

theorem override_changes_result:
  "kind (dtype (array (ArrayQ [1, 1, 0, 1, 0]))) \<notin> set UNSUPPORTED_KINDS \<and>
   MINIMUM_SAMPLE_SIZE loaded \<le> int (len (ArrayQ [1, 1, 0, 1, 0])) \<and>
   len_table (parse (ArrayQ [1, 1, 0, 1, 0])) = Inr 5 \<and>
   len_table (parse (NdArray (array (ArrayQ [1, 1, 0, 1, 0])))) = Inr 4 \<and>
   erLZ78 loaded (ArrayQ [1, 1, 0, 1, 0]) True = Inr (Some (5 * (log 2 5 + 1) / 5)) \<and>
   erLZ78 loaded (ArrayQ [1, 1, 0, 1, 0]) False = Inr (Some (4 * (2 + 1) / 5)) \<and>
   erLZ78 loaded (ArrayQ [1, 1, 0, 1, 0]) True \<noteq> erLZ78 loaded (ArrayQ [1, 1, 0, 1, 0]) False"
proof -
  have t: "erLZ78 loaded (ArrayQ [1, 1, 0, 1, 0]) True = Inr (Some (5 * (log 2 5 + 1) / 5))"
    by (simp add: erLZ78_def algorithm_def parse_Q_11010 unique_Q_11010 len_def log2_def
        ceil_def float_add_def float_mul_def float_div_def)
  have f: "erLZ78 loaded (ArrayQ [1, 1, 0, 1, 0]) False = Inr (Some (4 * (2 + 1) / 5))"
    by (simp add: erLZ78_def Let_def algorithm_def size_np_def parse_u_11010 unique_Q_11010 len_def
        loaded_state kinds_supported log2_def ceil_def float_add_def float_mul_def
        float_div_def log_2_4)
  have "5 * (log 2 5 + 1) / 5 \<noteq> (4 * (2 + 1) / 5 :: real)"
    using log_2_5 by simp
  with t f show ?thesis
    by (simp add: kinds_supported loaded_state len_def parse_Q_11010 parse_u_11010)
qed

end
